theory Spec2Isabelle
  imports Complex_Main "HOL-Library.Char_ord" "HOL-Library.List_Lexorder"
begin

section \<open>Data model\<close>

text \<open>
  A shallow embedding of the engagement pipeline of the emotion detector:
  \<^verbatim>\<open>config.py\<close> (emotion weights, tracker configuration, merging of overrides),
  \<^verbatim>\<open>engagement.py\<close> (the tracker and its \<^verbatim>\<open>update\<close>) and
  \<^verbatim>\<open>format_detection_summary\<close> of \<^verbatim>\<open>analyzer.py\<close>.

  Conventions of the embedding.
  \<^item> A Python \<^verbatim>\<open>float\<close> is an exact \<^typ>\<open>real\<close>: rounding, signed zeros, infinities
    and NaN are outside the model, and every numeric statement below is about exact
    arithmetic.
  \<^item> A Python \<^verbatim>\<open>dict\<close> (and a \<^verbatim>\<open>Counter\<close>) is an association list in insertion
    order; a dict the program receives has pairwise distinct keys.
  \<^item> An \<^verbatim>\<open>Iterable[str]\<close> of category names is a list of strings.
  \<^item> Every operation of Python that can raise returns a sum, \<open>Inl\<close> the exception.
  \<^item> Mutation of the tracker is explicit: \<open>update\<close> returns the new tracker with the summary.
\<close>

datatype py_error = ValueError | ZeroDivisionError | StatisticsError | KeyError

type_synonym 'v pydict = "(string \<times> 'v) list"

record EmotionWeights =
  positive :: "string list"
  neutral :: "string list"
  negative :: "string list"

record TrackerConfig =
  smoothing_factor :: real
  history_size :: int
  emotion_weights :: EmotionWeights

record EmotionDetection =
  box :: "int \<times> int \<times> int \<times> int"
  emotions :: "real pydict"

record FrameSummary =
  raw_score :: real
  smoothed_score :: real
  rolling_average :: real
  dominant_emotion :: "string option"
  emotion_distribution :: "real pydict"

text \<open>\<^verbatim>\<open>collections.deque(maxlen=n)\<close>: the bound is part of the deque.\<close>

record float_deque =
  maxlen :: nat
  items :: "real list"

record EngagementTracker =
  config :: TrackerConfig
  scores :: float_deque
  smoothed :: "real option"

section \<open>Python primitives\<close>

text \<open>\<^verbatim>\<open>str.lower\<close> on ASCII text: the letters \<open>A\<close> to \<open>Z\<close> move to \<open>a\<close> to \<open>z\<close>.\<close>

definition lower_char :: "char \<Rightarrow> char" where
  "lower_char c =
     (let n = (of_char c :: nat) in if 65 \<le> n \<and> n \<le> 90 then char_of (n + 32) else c)"

definition lower :: "string \<Rightarrow> string" where
  "lower s = map lower_char s"

text \<open>\<^verbatim>\<open>d[k] = v\<close>: an existing key keeps its position, a new key goes last.\<close>

fun dict_set :: "string \<Rightarrow> 'v \<Rightarrow> 'v pydict \<Rightarrow> 'v pydict" where
  "dict_set k v [] = [(k, v)]"
| "dict_set k v ((k', v') # d) = (if k' = k then (k, v) # d else (k', v') # dict_set k v d)"

text \<open>\<^verbatim>\<open>d.get(k, default)\<close>.\<close>

definition dict_get :: "'v pydict \<Rightarrow> string \<Rightarrow> 'v \<Rightarrow> 'v" where
  "dict_get d k dflt = (case map_of d k of None \<Rightarrow> dflt | Some v \<Rightarrow> v)"

text \<open>\<^verbatim>\<open>d[k]\<close> as a read: KeyError on a missing key.\<close>

definition dict_item :: "'v pydict \<Rightarrow> string \<Rightarrow> py_error + 'v" where
  "dict_item d k = (case map_of d k of None \<Rightarrow> Inl KeyError | Some v \<Rightarrow> Inr v)"

text \<open>\<^verbatim>\<open>a / b\<close> on numbers.\<close>

definition py_div :: "real \<Rightarrow> real \<Rightarrow> py_error + real" where
  "py_div a b = (if b = 0 then Inl ZeroDivisionError else Inr (a / b))"

text \<open>\<^verbatim>\<open>statistics.mean\<close>: StatisticsError on no data.\<close>

definition py_mean :: "real list \<Rightarrow> py_error + real" where
  "py_mean xs = (if xs = [] then Inl StatisticsError else Inr (sum_list xs / real (length xs)))"

text \<open>
  \<^verbatim>\<open>max(d, key=d.get)\<close> over a dict: the first key, in iteration order, whose value is
  not exceeded by a later one; ValueError on an empty dict. The keys of a dict are
  unique, so \<^verbatim>\<open>d.get\<close> at a key is the value of that entry.
\<close>

fun max_from :: "string \<times> real \<Rightarrow> real pydict \<Rightarrow> string \<times> real" where
  "max_from best [] = best"
| "max_from best ((k, v) # d) = max_from (if snd best < v then (k, v) else best) d"

definition py_max_key :: "real pydict \<Rightarrow> py_error + string" where
  "py_max_key d = (case d of [] \<Rightarrow> Inl ValueError | kv # rest \<Rightarrow> Inr (fst (max_from kv rest)))"

text \<open>\<^verbatim>\<open>deque(maxlen=n)\<close> raises ValueError on a negative bound.\<close>

definition new_deque :: "int \<Rightarrow> py_error + float_deque" where
  "new_deque n = (if n < 0 then Inl ValueError else Inr \<lparr>maxlen = nat n, items = []\<rparr>)"

text \<open>
  \<^verbatim>\<open>deque.append\<close>: the item is added on the right and, when the bound is then
  exceeded, one item is dropped on the left.
\<close>

definition deque_append :: "float_deque \<Rightarrow> real \<Rightarrow> float_deque" where
  "deque_append q x =
     (let ys = items q @ [x] in q\<lparr>items := (if maxlen q < length ys then tl ys else ys)\<rparr>)"

section \<open>config.py\<close>

definition default_weights :: EmotionWeights where
  "default_weights =
     \<lparr>positive = [''happy'', ''surprise'', ''excited'', ''engaged''],
      neutral = [''neutral'', ''calm''],
      negative = [''sad'', ''angry'', ''disgust'', ''fear'', ''bored'', ''contempt'', ''tired'']\<rparr>"

definition as_lookup :: "EmotionWeights \<Rightarrow> real pydict" where
  "as_lookup w =
     (let lookup = [];
          lookup = fold (\<lambda>emotion l. dict_set emotion 1 l) (positive w) lookup;
          lookup = fold (\<lambda>emotion l. dict_set emotion (1 / 2) l) (neutral w) lookup;
          lookup = fold (\<lambda>emotion l. dict_set emotion 0 l) (negative w) lookup
      in lookup)"

definition default_config :: TrackerConfig where
  "default_config =
     \<lparr>smoothing_factor = 2 / 10, history_size = 150, emotion_weights = default_weights\<rparr>"

definition weight_for :: "TrackerConfig \<Rightarrow> string \<Rightarrow> real" where
  "weight_for cfg emotion = dict_get (as_lookup (emotion_weights cfg)) emotion (1 / 2)"

text \<open>\<^verbatim>\<open>tuple(sorted({v.lower() for v in values}))\<close>.\<close>

definition normalise :: "string list \<Rightarrow> string list" where
  "normalise vs = sort (remdups (map lower vs))"

text \<open>
  \<^verbatim>\<open>overrides\<close> is \<^verbatim>\<open>None\<close> or a mapping; \<^verbatim>\<open>not overrides\<close> holds for
  \<^verbatim>\<open>None\<close> and for the empty mapping.
\<close>

definition merge_emotion_weights ::
    "EmotionWeights \<Rightarrow> string list pydict option \<Rightarrow> EmotionWeights" where
  "merge_emotion_weights base overrides =
     (case overrides of
        None \<Rightarrow> base
      | Some ov \<Rightarrow>
          if ov = [] then base
          else \<lparr>positive = normalise (dict_get ov ''positive'' (positive base)),
                neutral = normalise (dict_get ov ''neutral'' (neutral base)),
                negative = normalise (dict_get ov ''negative'' (negative base))\<rparr>)"

section \<open>engagement.py\<close>

text \<open>
  \<^verbatim>\<open>EngagementTracker.__init__\<close>: \<^verbatim>\<open>config or TrackerConfig()\<close> takes the default
  configuration for \<^verbatim>\<open>None\<close> (a dataclass instance is always truthy).
\<close>

definition init_tracker :: "TrackerConfig option \<Rightarrow> py_error + EngagementTracker" where
  "init_tracker c =
     (let cfg = (case c of None \<Rightarrow> default_config | Some cfg \<Rightarrow> cfg)
      in case new_deque (history_size cfg) of
           Inl e \<Rightarrow> Inl e
         | Inr q \<Rightarrow> Inr \<lparr>config = cfg, scores = q, smoothed = None\<rparr>)"

text \<open>The loop of \<^verbatim>\<open>_score_for_emotions\<close>, from the accumulator \<^verbatim>\<open>weighted_total\<close>.\<close>

fun weighted_sum :: "TrackerConfig \<Rightarrow> real pydict \<Rightarrow> real \<Rightarrow> real" where
  "weighted_sum cfg [] weighted_total = weighted_total"
| "weighted_sum cfg ((emotion, intensity) # rest) weighted_total =
     weighted_sum cfg rest (weighted_total + weight_for cfg (lower emotion) * intensity)"

definition score_for_emotions :: "TrackerConfig \<Rightarrow> real pydict \<Rightarrow> py_error + real" where
  "score_for_emotions cfg ems =
     (let total_intensity = sum_list (map snd ems)
      in if total_intensity \<le> 0 then Inr 0
         else py_div (weighted_sum cfg ems 0) total_intensity)"

text \<open>\<^verbatim>\<open>emotion_totals[emotion.lower()] += value\<close> on a Counter, for each item of a detection.\<close>

fun add_totals :: "real pydict \<Rightarrow> real pydict \<Rightarrow> real pydict" where
  "add_totals [] emotion_totals = emotion_totals"
| "add_totals ((emotion, v) # rest) emotion_totals =
     add_totals rest
       (dict_set (lower emotion) (dict_get emotion_totals (lower emotion) 0 + v) emotion_totals)"

text \<open>The loop over the detections of \<^verbatim>\<open>update\<close>, from \<^verbatim>\<open>frame_scores\<close> and \<^verbatim>\<open>emotion_totals\<close>.\<close>

fun scan_detections ::
    "TrackerConfig \<Rightarrow> EmotionDetection list \<Rightarrow> real list \<Rightarrow> real pydict
       \<Rightarrow> py_error + (real list \<times> real pydict)" where
  "scan_detections cfg [] frame_scores emotion_totals = Inr (frame_scores, emotion_totals)"
| "scan_detections cfg (detection # rest) frame_scores emotion_totals =
     (if emotions detection = [] then scan_detections cfg rest frame_scores emotion_totals
      else case score_for_emotions cfg (emotions detection) of
             Inl e \<Rightarrow> Inl e
           | Inr score \<Rightarrow>
               scan_detections cfg rest (frame_scores @ [score])
                 (add_totals (emotions detection) emotion_totals))"

text \<open>The comprehension \<^verbatim>\<open>{emotion: value / total for emotion, value in totals.items()}\<close>.\<close>

fun divide_all :: "real pydict \<Rightarrow> real \<Rightarrow> py_error + real pydict" where
  "divide_all [] total_intensity = Inr []"
| "divide_all ((emotion, v) # rest) total_intensity =
     (case py_div v total_intensity of
        Inl e \<Rightarrow> Inl e
      | Inr share \<Rightarrow>
          (case divide_all rest total_intensity of
             Inl e \<Rightarrow> Inl e
           | Inr d \<Rightarrow> Inr ((emotion, share) # d)))"

text \<open>\<^verbatim>\<open>x or 0.0\<close> on an optional float: \<^verbatim>\<open>None\<close> and zero are falsy.\<close>

definition or_zero :: "real option \<Rightarrow> real" where
  "or_zero x = (case x of None \<Rightarrow> 0 | Some v \<Rightarrow> if v = 0 then 0 else v)"

definition update ::
    "EngagementTracker \<Rightarrow> EmotionDetection list \<Rightarrow> py_error + (EngagementTracker \<times> FrameSummary)" where
  "update self detections =
     (case scan_detections (config self) detections [] [] of
        Inl e \<Rightarrow> Inl e
      | Inr (frame_scores, emotion_totals) \<Rightarrow>
     (case (if frame_scores \<noteq> []
            then py_div (sum_list frame_scores) (real (length frame_scores))
            else Inr 0) of
        Inl e \<Rightarrow> Inl e
      | Inr raw \<Rightarrow>
     (let scores' = deque_append (scores self) raw;
          smoothed' =
            (case smoothed self of
               None \<Rightarrow> raw
             | Some prev \<Rightarrow>
                 (let alpha = smoothing_factor (config self)
                  in (1 - alpha) * prev + alpha * raw))
      in
     (case (if items scores' \<noteq> [] then py_mean (items scores') else Inr 0) of
        Inl e \<Rightarrow> Inl e
      | Inr rolling \<Rightarrow>
     (let total_emotion_intensity = sum_list (map snd emotion_totals)
      in
     (case (if 0 < total_emotion_intensity
            then (case divide_all emotion_totals total_emotion_intensity of
                    Inl e \<Rightarrow> Inl e
                  | Inr distribution \<Rightarrow>
                      (case py_max_key distribution of
                         Inl e \<Rightarrow> Inl e
                       | Inr k \<Rightarrow> Inr (distribution, Some k)))
            else Inr ([], None)) of
        Inl e \<Rightarrow> Inl e
      | Inr (distribution, dominant) \<Rightarrow>
          Inr (self\<lparr>scores := scores', smoothed := Some smoothed'\<rparr>,
               \<lparr>raw_score = raw,
                smoothed_score = or_zero (Some smoothed'),
                rolling_average = rolling,
                dominant_emotion = dominant,
                emotion_distribution = distribution\<rparr>)))))))"

text \<open>
  A sequence of \<^verbatim>\<open>update\<close> calls on one tracker, one per frame, as the frame loop of
  \<^verbatim>\<open>main.py\<close> makes them; the summaries are collected in call order and the first
  exception ends the run.
\<close>

fun run_updates ::
    "EngagementTracker \<Rightarrow> EmotionDetection list list
       \<Rightarrow> py_error + (EngagementTracker \<times> FrameSummary list)" where
  "run_updates self [] = Inr (self, [])"
| "run_updates self (detections # frames) =
     (case update self detections of
        Inl e \<Rightarrow> Inl e
      | Inr (self', s) \<Rightarrow>
          (case run_updates self' frames of
             Inl e \<Rightarrow> Inl e
           | Inr (self'', ss) \<Rightarrow> Inr (self'', s # ss)))"

section \<open>analyzer.py\<close>

text \<open>The two nested loops of \<^verbatim>\<open>format_detection_summary\<close>, from \<^verbatim>\<open>totals\<close> and \<^verbatim>\<open>counts\<close>.\<close>

fun tally_items :: "real pydict \<Rightarrow> real pydict \<times> nat pydict \<Rightarrow> real pydict \<times> nat pydict" where
  "tally_items [] tc = tc"
| "tally_items ((emotion, score) # rest) (totals, counts) =
     tally_items rest
       (dict_set emotion (dict_get totals emotion 0 + score) totals,
        dict_set emotion (dict_get counts emotion 0 + 1) counts)"

fun tally_detections ::
    "EmotionDetection list \<Rightarrow> real pydict \<times> nat pydict \<Rightarrow> real pydict \<times> nat pydict" where
  "tally_detections [] tc = tc"
| "tally_detections (detection # rest) tc =
     tally_detections rest (tally_items (emotions detection) tc)"

text \<open>\<^verbatim>\<open>{emotion: totals[emotion] / counts[emotion] for emotion in totals}\<close>, over the keys \<open>ks\<close>.\<close>

fun average_all :: "string list \<Rightarrow> real pydict \<Rightarrow> nat pydict \<Rightarrow> py_error + real pydict" where
  "average_all [] totals counts = Inr []"
| "average_all (emotion # ks) totals counts =
     (case dict_item totals emotion of
        Inl e \<Rightarrow> Inl e
      | Inr t \<Rightarrow>
     (case dict_item counts emotion of
        Inl e \<Rightarrow> Inl e
      | Inr c \<Rightarrow>
     (case py_div t (real c) of
        Inl e \<Rightarrow> Inl e
      | Inr avg \<Rightarrow>
     (case average_all ks totals counts of
        Inl e \<Rightarrow> Inl e
      | Inr d \<Rightarrow> Inr ((emotion, avg) # d)))))"

definition format_detection_summary :: "EmotionDetection list \<Rightarrow> py_error + real pydict" where
  "format_detection_summary detections =
     (case tally_detections detections ([], []) of
        (totals, counts) \<Rightarrow>
          if totals = [] then Inr [] else average_all (map fst totals) totals counts)"

section \<open>Example inputs\<close>

text \<open>Concrete values on which the theorems below are evaluated.\<close>

definition face :: "real pydict \<Rightarrow> EmotionDetection" where
  "face ems = \<lparr>box = (0, 0, 0, 0), emotions = ems\<rparr>"

definition scenario_weights :: EmotionWeights where
  "scenario_weights = \<lparr>positive = [''happy''], neutral = [''neutral''], negative = [''sad'']\<rparr>"

definition scenario_config :: TrackerConfig where
  "scenario_config =
     \<lparr>smoothing_factor = 2 / 10, history_size = 2, emotion_weights = scenario_weights\<rparr>"

text \<open>The tracker that \<^verbatim>\<open>EngagementTracker(cfg)\<close> builds when the bound is not negative.\<close>

definition fresh :: "TrackerConfig \<Rightarrow> EngagementTracker" where
  "fresh cfg =
     \<lparr>config = cfg, scores = \<lparr>maxlen = nat (history_size cfg), items = []\<rparr>, smoothed = None\<rparr>"

section \<open>Lookup of weights\<close>

lemma map_of_dict_set: "map_of (dict_set k v d) k' = (if k' = k then Some v else map_of d k')"
  by (induction d) auto

lemma map_of_fold_dict_set:
  "map_of (fold (\<lambda>e l. dict_set e c l) es l) k = (if k \<in> set es then Some c else map_of l k)"
  by (induction es arbitrary: l) (auto simp: map_of_dict_set)

lemma map_of_as_lookup:
  "map_of (as_lookup w) e =
     (if e \<in> set (negative w) then Some 0
      else if e \<in> set (neutral w) then Some (1 / 2)
      else if e \<in> set (positive w) then Some 1
      else None)"
  by (simp add: as_lookup_def map_of_fold_dict_set)

lemma weight_for_cases:
  "weight_for cfg e =
     (if e \<in> set (negative (emotion_weights cfg)) then 0
      else if e \<in> set (neutral (emotion_weights cfg)) then 1 / 2
      else if e \<in> set (positive (emotion_weights cfg)) then 1
      else 1 / 2)"
  by (simp add: weight_for_def dict_get_def map_of_as_lookup)


section \<open>Per-face score\<close>

lemma weighted_sum_eq:
  "weighted_sum cfg ems acc = acc + (\<Sum>(e, v)\<leftarrow>ems. weight_for cfg (lower e) * v)"
  by (induction ems arbitrary: acc) auto

lemma score_for_emotions_eq:
  "score_for_emotions cfg ems =
     Inr (if sum_list (map snd ems) \<le> 0 then 0
          else (\<Sum>(e, v)\<leftarrow>ems. weight_for cfg (lower e) * v) / sum_list (map snd ems))"
  by (simp add: score_for_emotions_def py_div_def weighted_sum_eq Let_def)

lemma scan_detections_eq:
  "\<exists>vs. scan_detections cfg dets fs0 tot0 =
           Inr (fs0 @ vs, fold (\<lambda>d. add_totals (emotions d)) dets tot0) \<and>
        map Inr vs =
          map (\<lambda>d. score_for_emotions cfg (emotions d)) (filter (\<lambda>d. emotions d \<noteq> []) dets)"
proof (induction dets arbitrary: fs0 tot0)
  case Nil
  show ?case by simp
next
  case (Cons d dets)
  show ?case
  proof (cases "emotions d = []")
    case True
    with Cons.IH [of fs0 tot0] show ?thesis by simp
  next
    case False
    obtain v where v: "score_for_emotions cfg (emotions d) = Inr v"
      using score_for_emotions_eq by blast
    obtain vs where vs:
      "scan_detections cfg dets (fs0 @ [v]) (add_totals (emotions d) tot0) =
         Inr ((fs0 @ [v]) @ vs,
              fold (\<lambda>d. add_totals (emotions d)) dets (add_totals (emotions d) tot0))"
      "map Inr vs =
         map (\<lambda>d. score_for_emotions cfg (emotions d)) (filter (\<lambda>d. emotions d \<noteq> []) dets)"
      using Cons.IH [of "fs0 @ [v]" "add_totals (emotions d) tot0"] by blast
    show ?thesis
      using False v vs by (intro exI [of _ "v # vs"]) simp
  qed
qed

lemma divide_all_eq:
  "T \<noteq> 0 \<Longrightarrow> divide_all tot T = Inr (map (\<lambda>(e, v). (e, v / T)) tot)"
  by (induction tot) (auto simp: py_div_def)

lemma update_of_scan:
  assumes scan: "scan_detections (config t) dets [] [] = Inr (fs, tot)"
  defines "raw \<equiv> (if fs = [] then 0 else sum_list fs / real (length fs))"
  defines "q \<equiv> deque_append (scores t) raw"
  defines "T \<equiv> sum_list (map snd tot)"
  defines "shares \<equiv> (if 0 < T then map (\<lambda>(e, v). (e, v / T)) tot else [])"
  defines "sm \<equiv> (case smoothed t of None \<Rightarrow> raw
                  | Some prev \<Rightarrow> (1 - smoothing_factor (config t)) * prev
                                  + smoothing_factor (config t) * raw)"
  shows "update t dets =
           Inr (t\<lparr>scores := q, smoothed := Some sm\<rparr>,
                \<lparr>raw_score = raw, smoothed_score = sm,
                 rolling_average =
                   (if items q = [] then 0 else sum_list (items q) / real (length (items q))),
                 dominant_emotion =
                   (if 0 < T then Some (fst (max_from (hd shares) (tl shares))) else None),
                 emotion_distribution = shares\<rparr>)"
proof -
  have raw: "(if fs \<noteq> [] then py_div (sum_list fs) (real (length fs)) else Inr 0) = Inr raw"
    by (simp add: raw_def py_div_def)
  have roll: "(if items q \<noteq> [] then py_mean (items q) else Inr 0) =
        Inr (if items q = [] then 0 else sum_list (items q) / real (length (items q)))"
    by (simp add: py_mean_def)
  have oz: "or_zero (Some sm) = sm"
    by (simp add: or_zero_def)
  have sh: "(if 0 < T
            then (case divide_all tot T of
                    Inl e \<Rightarrow> Inl e
                  | Inr distribution \<Rightarrow>
                      (case py_max_key distribution of
                         Inl e \<Rightarrow> Inl e
                       | Inr k \<Rightarrow> Inr (distribution, Some k)))
            else Inr ([], None)) =
         Inr (shares, if 0 < T then Some (fst (max_from (hd shares) (tl shares))) else None)"
  proof (cases "0 < T")
    case True
    then have "tot \<noteq> []" by (auto simp: T_def)
    then have "shares \<noteq> []" using True by (simp add: shares_def)
    then have "py_max_key shares = Inr (fst (max_from (hd shares) (tl shares)))"
      by (cases shares) (simp_all add: py_max_key_def)
    moreover have "divide_all tot T = Inr shares"
      using True by (simp add: divide_all_eq shares_def)
    ultimately show ?thesis using True by simp
  next
    case False
    then show ?thesis by (simp add: shares_def)
  qed
  have sm': "(case smoothed t of None \<Rightarrow> raw
              | Some prev \<Rightarrow>
                  (let alpha = smoothing_factor (config t)
                   in (1 - alpha) * prev + alpha * raw)) = sm"
    by (simp add: sm_def Let_def split: option.splits)
  show ?thesis
    unfolding update_def scan
    by (simp add: raw Let_def sm' roll [unfolded q_def] sh [unfolded T_def] oz q_def T_def)
qed

section \<open>One call of update, and a run of calls\<close>

lemma update_facts:
  obtains t' s vs where
    "update t dets = Inr (t', s)"
    "map Inr vs =
       map (\<lambda>d. score_for_emotions (config t) (emotions d)) (filter (\<lambda>d. emotions d \<noteq> []) dets)"
    "raw_score s = (if vs = [] then 0 else sum_list vs / real (length vs))"
    "config t' = config t"
    "scores t' = deque_append (scores t) (raw_score s)"
    "smoothed t' = Some (smoothed_score s)"
    "smoothed_score s =
       (case smoothed t of None \<Rightarrow> raw_score s
        | Some prev \<Rightarrow> (1 - smoothing_factor (config t)) * prev
                        + smoothing_factor (config t) * raw_score s)"
    "rolling_average s =
       (if items (scores t') = [] then 0
        else sum_list (items (scores t')) / real (length (items (scores t'))))"
proof -
  obtain vs where vs:
    "scan_detections (config t) dets [] [] =
       Inr (vs, fold (\<lambda>d. add_totals (emotions d)) dets [])"
    "map Inr vs =
       map (\<lambda>d. score_for_emotions (config t) (emotions d)) (filter (\<lambda>d. emotions d \<noteq> []) dets)"
    using scan_detections_eq [of "config t" dets "[]" "[]"] by auto
  show ?thesis
    by (rule that [OF update_of_scan [OF vs(1)] vs(2)]) (simp_all cong: option.case_cong)
qed

lemma update_total: "\<exists>t' s. update t dets = Inr (t', s)"
  using update_facts [of t dets] by blast

lemma update_step:
  assumes "update t dets = Inr (t', s)"
  shows "config t' = config t"
    and "scores t' = deque_append (scores t) (raw_score s)"
    and "smoothed t' = Some (smoothed_score s)"
    and "smoothed_score s =
       (case smoothed t of None \<Rightarrow> raw_score s
        | Some prev \<Rightarrow> (1 - smoothing_factor (config t)) * prev
                        + smoothing_factor (config t) * raw_score s)"
    and "rolling_average s =
       (if items (scores t') = [] then 0
        else sum_list (items (scores t')) / real (length (items (scores t'))))"
  using assms update_facts [of t dets] by (metis Inr_inject prod.inject)+

lemma run_updates_total: "\<exists>t' ss. run_updates t frames = Inr (t', ss)"
proof (induction frames arbitrary: t)
  case Nil
  show ?case by simp
next
  case (Cons f frames)
  obtain t1 s where "update t f = Inr (t1, s)"
    using update_total by blast
  moreover obtain t2 ss where "run_updates t1 frames = Inr (t2, ss)"
    using Cons.IH by blast
  ultimately show ?case by simp
qed

lemma run_updates_Cons:
  assumes "run_updates t (f # frames) = Inr (t', ss)"
  obtains t1 s ss' where "update t f = Inr (t1, s)" "run_updates t1 frames = Inr (t', ss')"
    "ss = s # ss'"
  using assms by (auto split: sum.splits prod.splits)

lemma run_updates_length:
  "run_updates t frames = Inr (t', ss) \<Longrightarrow> length ss = length frames \<and> config t' = config t"
proof (induction frames arbitrary: t ss)
  case Nil
  then show ?case by simp
next
  case (Cons f frames)
  from Cons.prems obtain t1 s ss' where
    st: "update t f = Inr (t1, s)" "run_updates t1 frames = Inr (t', ss')" "ss = s # ss'"
    by (rule run_updates_Cons)
  with Cons.IH [OF st(2)] update_step(1) [OF st(1)] show ?case by simp
qed

section \<open>Claims about the weight lookup\<close>

lemma lower_happy: "lower ''happy'' = ''happy''"
  by code_simp

lemma lower_sad: "lower ''sad'' = ''sad''"
  by code_simp

text \<open>
  C6. The lookup built by \<^verbatim>\<open>as_lookup\<close> gives 1 to a positive name, 1/2 to a neutral
  one and 0 to a negative one; the categories are written in that order, so a name in
  several categories keeps the weight of the last one (negative over neutral over
  positive). \<^verbatim>\<open>weight_for\<close> answers 1/2 for a name in none of the three.
\<close>

theorem weight_lookup_order:
  "map_of (as_lookup w) e =
     (if e \<in> set (negative w) then Some 0
      else if e \<in> set (neutral w) then Some (1 / 2)
      else if e \<in> set (positive w) then Some 1
      else None) \<and>
   weight_for cfg e =
     (if e \<in> set (negative (emotion_weights cfg)) then 0
      else if e \<in> set (neutral (emotion_weights cfg)) then 1 / 2
      else if e \<in> set (positive (emotion_weights cfg)) then 1
      else 1 / 2)"
  using map_of_as_lookup weight_for_cases by simp

theorem weight_lookup_order_witness:
  "weight_for (scenario_config\<lparr>emotion_weights :=
       \<lparr>positive = [''a'', ''b''], neutral = [''b'', ''c''], negative = [''c'', ''d'']\<rparr>\<rparr>) ''b''
     = 1 / 2"
  using weight_lookup_order
    [of "\<lparr>positive = [''a'', ''b''], neutral = [''b'', ''c''], negative = [''c'', ''d'']\<rparr>" "''b''"
        "scenario_config\<lparr>emotion_weights :=
           \<lparr>positive = [''a'', ''b''], neutral = [''b'', ''c''], negative = [''c'', ''d'']\<rparr>\<rparr>"]
  by simp

section \<open>Claims about one call of update\<close>

text \<open>
  C1, as stated, fails: the weight in the per-face score is not the weight of the
  emotion name as the detection gives it. \<^verbatim>\<open>_score_for_emotions\<close> looks the weight up
  at \<^verbatim>\<open>emotion.lower()\<close>. With the default configuration the mapping
  \<^verbatim>\<open>{"Happy": 1.0}\<close> scores 1, while the weight of \<^verbatim>\<open>"Happy"\<close> is the default 1/2;
  and with the positive names \<^verbatim>\<open>("Happy",)\<close> the same mapping scores 1/2, while the
  weight of \<^verbatim>\<open>"Happy"\<close> is 1.
\<close>

theorem per_face_score_weight_at_given_name:
  "score_for_emotions default_config [(''Happy'', 1)]
     \<noteq> Inr (weight_for default_config ''Happy'' * 1 / 1)
   \<and> score_for_emotions default_config [(''Happy'', 1)] = Inr 1
   \<and> weight_for default_config ''Happy'' = 1 / 2
   \<and> score_for_emotions
         (default_config\<lparr>emotion_weights :=
            \<lparr>positive = [''Happy''], neutral = [], negative = []\<rparr>\<rparr>)
         [(''Happy'', 1)]
     \<noteq> Inr (weight_for
              (default_config\<lparr>emotion_weights :=
                 \<lparr>positive = [''Happy''], neutral = [], negative = []\<rparr>\<rparr>)
              ''Happy'' * 1 / 1)
   \<and> score_for_emotions
         (default_config\<lparr>emotion_weights :=
            \<lparr>positive = [''Happy''], neutral = [], negative = []\<rparr>\<rparr>)
         [(''Happy'', 1)] = Inr (1 / 2)
   \<and> weight_for
         (default_config\<lparr>emotion_weights :=
            \<lparr>positive = [''Happy''], neutral = [], negative = []\<rparr>\<rparr>)
         ''Happy'' = 1"
  by code_simp

text \<open>
  C1, amended. The per-face score of an emotion mapping is 0 when its scores sum to at
  most 0, and otherwise the sum, over its emotions, of the weight of the lower-cased
  emotion name times the score, divided by the sum of its scores. With the weights
  positive = happy, neutral = neutral, negative = sad, one detection with happy 0.6 and
  sad 0.4 gives the frame the raw score 0.6, whatever the state of the tracker.
\<close>

theorem per_face_score:
  "score_for_emotions cfg ems =
     Inr (if sum_list (map snd ems) \<le> 0 then 0
          else (\<Sum>(e, v)\<leftarrow>ems. weight_for cfg (lower e) * v) / sum_list (map snd ems))
   \<and> (emotion_weights (config t) = scenario_weights
      \<longrightarrow> (\<exists>t' s. update t [\<lparr>box = b, emotions = [(''happy'', 6 / 10), (''sad'', 4 / 10)]\<rparr>]
                      = Inr (t', s) \<and> raw_score s = 6 / 10))"
proof (intro conjI impI)
  show "score_for_emotions cfg ems =
     Inr (if sum_list (map snd ems) \<le> 0 then 0
          else (\<Sum>(e, v)\<leftarrow>ems. weight_for cfg (lower e) * v) / sum_list (map snd ems))"
    by (rule score_for_emotions_eq)
next
  let ?d = "\<lparr>box = b, emotions = [(''happy'', 6 / 10), (''sad'', 4 / 10)]\<rparr>"
  assume w: "emotion_weights (config t) = scenario_weights"
  have "score_for_emotions (config t) (emotions ?d) = Inr (6 / 10)"
    by (simp add: score_for_emotions_eq weight_for_cases w scenario_weights_def
          lower_happy lower_sad)
  then have "scan_detections (config t) [?d] [] [] =
      Inr ([6 / 10], add_totals (emotions ?d) [])"
    by simp
  from update_of_scan [OF this]
  show "\<exists>t' s. update t [?d] = Inr (t', s) \<and> raw_score s = 6 / 10"
    by simp
qed

theorem per_face_score_witness:
  "score_for_emotions scenario_config [(''happy'', 6 / 10), (''sad'', 4 / 10)] = Inr (6 / 10)
   \<and> (\<exists>t' s. update (fresh scenario_config)
                 [\<lparr>box = (1, 2, 3, 4), emotions = [(''happy'', 6 / 10), (''sad'', 4 / 10)]\<rparr>]
               = Inr (t', s) \<and> raw_score s = 6 / 10)"
proof -
  have w: "emotion_weights (config (fresh scenario_config)) = scenario_weights"
    by (simp add: fresh_def scenario_config_def)
  have v: "(\<Sum>(e, v)\<leftarrow>[(''happy'', 6 / 10), (''sad'', 4 / 10)].
              weight_for scenario_config (lower e) * v) = 6 / 10"
    by (simp add: weight_for_cases scenario_config_def scenario_weights_def lower_happy lower_sad)
  show ?thesis
    using per_face_score [of scenario_config "[(''happy'', 6 / 10), (''sad'', 4 / 10)]"
        "fresh scenario_config" "(1, 2, 3, 4)"] w v
    by simp
qed

text \<open>
  C10. After a call of \<^verbatim>\<open>update\<close> the smoothed state of the tracker is set, and the
  summary returns exactly that value: the fallback \<^verbatim>\<open>or 0.0\<close> leaves it as it is,
  also when it is 0.
\<close>

theorem smoothed_state_returned:
  "\<exists>t' s v. update t dets = Inr (t', s) \<and> smoothed t' = Some v \<and> smoothed_score s = v
     \<and> or_zero (smoothed t') = v"
proof -
  obtain t' s where u: "update t dets = Inr (t', s)"
    using update_total by blast
  have "smoothed t' = Some (smoothed_score s)"
    using update_step(3) [OF u] .
  moreover have "or_zero (Some (smoothed_score s)) = smoothed_score s"
    by (simp add: or_zero_def)
  ultimately show ?thesis using u by auto
qed

theorem smoothed_state_returned_witness:
  "\<exists>t' s. update (fresh default_config) [] = Inr (t', s) \<and> smoothed t' = Some 0
     \<and> smoothed_score s = 0"
proof -
  have e: "(case update (fresh default_config) [] of Inl e \<Rightarrow> False
            | Inr (t', s) \<Rightarrow> smoothed_score s = 0)"
    by code_simp
  obtain t' s v where u: "update (fresh default_config) [] = Inr (t', s)"
      "smoothed t' = Some v" "smoothed_score s = v"
    using smoothed_state_returned [of "fresh default_config" "[]"] by blast
  with e show ?thesis by auto
qed

text \<open>
  C5. \<^verbatim>\<open>update\<close> returns a summary on every input, from every tracker state. Its raw
  score is the arithmetic mean of the per-face scores of the detections with a non-empty
  mapping, and 0 when there is none; when every detection has an empty mapping (or there
  is no detection) the dominant emotion is absent and the distribution is empty.
\<close>

lemma fold_add_totals_empty:
  "\<forall>d\<in>set dets. emotions d = [] \<Longrightarrow> fold (\<lambda>d. add_totals (emotions d)) dets tot = tot"
  by (induction dets arbitrary: tot) auto

theorem update_never_fails:
  "\<exists>t' s vs. update t dets = Inr (t', s)
     \<and> map Inr vs = map (\<lambda>d. score_for_emotions (config t) (emotions d))
                        (filter (\<lambda>d. emotions d \<noteq> []) dets)
     \<and> raw_score s = (if vs = [] then 0 else sum_list vs / real (length vs))
     \<and> ((\<forall>d\<in>set dets. emotions d = [])
          \<longrightarrow> raw_score s = 0 \<and> dominant_emotion s = None \<and> emotion_distribution s = [])"
proof -
  obtain vs where vs:
    "scan_detections (config t) dets [] [] =
       Inr (vs, fold (\<lambda>d. add_totals (emotions d)) dets [])"
    "map Inr vs =
       map (\<lambda>d. score_for_emotions (config t) (emotions d)) (filter (\<lambda>d. emotions d \<noteq> []) dets)"
    using scan_detections_eq [of "config t" dets "[]" "[]"] by auto
  note u = update_of_scan [OF vs(1)]
  have "raw_score (snd (projr (update t dets))) = 0
        \<and> dominant_emotion (snd (projr (update t dets))) = None
        \<and> emotion_distribution (snd (projr (update t dets))) = []"
    if a: "\<forall>d\<in>set dets. emotions d = []"
  proof -
    have "filter (\<lambda>d. emotions d \<noteq> []) dets = []"
      using a by (simp add: filter_empty_conv)
    then have "vs = []" using vs(2) by simp
    moreover have "fold (\<lambda>d. add_totals (emotions d)) dets [] = []"
      using a by (rule fold_add_totals_empty)
    ultimately show ?thesis unfolding u by simp
  qed
  moreover have "raw_score (snd (projr (update t dets))) =
      (if vs = [] then 0 else sum_list vs / real (length vs))"
    unfolding u by simp
  moreover have "update t dets = Inr (fst (projr (update t dets)), snd (projr (update t dets)))"
    unfolding u by simp
  ultimately show ?thesis using vs(2) by blast
qed

theorem update_never_fails_witness:
  "\<exists>t' s. update (fresh scenario_config) [face [], face []] = Inr (t', s)
     \<and> raw_score s = 0 \<and> dominant_emotion s = None \<and> emotion_distribution s = []"
  using update_never_fails [of "fresh scenario_config" "[face [], face []]"]
  by (auto simp: face_def)

section \<open>Claims about a run of calls\<close>

lemma init_tracker_fresh:
  assumes "init_tracker c = Inr t0"
  shows "t0 = fresh (case c of None \<Rightarrow> default_config | Some cfg \<Rightarrow> cfg)"
    and "0 \<le> history_size (config t0)"
  using assms
  by (auto simp: init_tracker_def new_deque_def fresh_def Let_def split: if_splits)

lemma run_updates_smoothed:
  assumes "run_updates t frames = Inr (t', ss)"
  shows "(frames \<noteq> [] \<longrightarrow>
            smoothed_score (hd ss) =
              (case smoothed t of None \<Rightarrow> raw_score (hd ss)
               | Some prev \<Rightarrow> (1 - smoothing_factor (config t)) * prev
                               + smoothing_factor (config t) * raw_score (hd ss)))
       \<and> (\<forall>n. Suc n < length ss \<longrightarrow>
            smoothed_score (ss ! Suc n) =
              (1 - smoothing_factor (config t)) * smoothed_score (ss ! n)
              + smoothing_factor (config t) * raw_score (ss ! Suc n))
       \<and> (frames \<noteq> [] \<longrightarrow> smoothed t' = Some (smoothed_score (last ss)))"
  using assms
proof (induction frames arbitrary: t ss)
  case Nil
  then show ?case by simp
next
  case (Cons f frames)
  from Cons.prems obtain t1 s ss' where
    st: "update t f = Inr (t1, s)" "run_updates t1 frames = Inr (t', ss')" "ss = s # ss'"
    by (rule run_updates_Cons)
  note ih = Cons.IH [OF st(2)]
  note u = update_step [OF st(1)]
  have len: "length ss' = length frames"
    using run_updates_length [OF st(2)] by simp
  have hd: "smoothed_score (hd ss) =
              (case smoothed t of None \<Rightarrow> raw_score (hd ss)
               | Some prev \<Rightarrow> (1 - smoothing_factor (config t)) * prev
                               + smoothing_factor (config t) * raw_score (hd ss))"
    using u(4) st(3) by (simp cong: option.case_cong)
  have chain: "smoothed_score (ss ! Suc n) =
              (1 - smoothing_factor (config t)) * smoothed_score (ss ! n)
              + smoothing_factor (config t) * raw_score (ss ! Suc n)"
    if n: "Suc n < length ss" for n
  proof (cases n)
    case 0
    then have ne: "frames \<noteq> []" "ss' \<noteq> []" using n st(3) len by auto
    then have "ss ! Suc n = hd ss'" "ss ! n = s"
      using 0 st(3) by (simp_all add: hd_conv_nth)
    then show ?thesis using ih ne u(1,3) by simp
  next
    case (Suc m)
    then have "Suc m < length ss'" using n st(3) by simp
    then show ?thesis using ih Suc st(3) u(1) by simp
  qed
  have last: "smoothed t' = Some (smoothed_score (last ss))"
  proof (cases "frames = []")
    case True
    then show ?thesis using st u(3) by simp
  next
    case False
    then have "ss' \<noteq> []" using len by auto
    then show ?thesis using ih False st(3) by simp
  qed
  show ?case using hd chain last by blast
qed

text \<open>
  C2. On a tracker as \<^verbatim>\<open>__init__\<close> builds it, the first call of \<^verbatim>\<open>update\<close> returns
  a smoothed score equal to its raw score, and every later call returns
  (1 - alpha) * previous smoothed score + alpha * raw score, alpha the smoothing factor
  of the configuration; the value is kept in the tracker between calls. With alpha = 0.2,
  a previous smoothed score 0.5 and a raw score 1.0, the new smoothed score is 0.6.
\<close>

theorem exponential_smoothing:
  assumes "init_tracker c = Inr t0"
  shows "\<exists>t ss. run_updates t0 frames = Inr (t, ss) \<and> length ss = length frames
     \<and> (frames \<noteq> [] \<longrightarrow> smoothed_score (hd ss) = raw_score (hd ss))
     \<and> (\<forall>n. Suc n < length ss \<longrightarrow>
           smoothed_score (ss ! Suc n) =
             (1 - smoothing_factor (config t0)) * smoothed_score (ss ! n)
             + smoothing_factor (config t0) * raw_score (ss ! Suc n))
     \<and> (\<forall>n. Suc n < length ss \<and> smoothing_factor (config t0) = 2 / 10
             \<and> smoothed_score (ss ! n) = 5 / 10 \<and> raw_score (ss ! Suc n) = 1 \<longrightarrow>
           smoothed_score (ss ! Suc n) = 6 / 10)
     \<and> (frames \<noteq> [] \<longrightarrow> smoothed t = Some (smoothed_score (last ss)))"
proof -
  obtain t ss where r: "run_updates t0 frames = Inr (t, ss)"
    using run_updates_total by blast
  have none: "smoothed t0 = None"
    using init_tracker_fresh(1) [OF assms] by (simp add: fresh_def)
  note sm = run_updates_smoothed [OF r]
  have chain: "\<forall>n. Suc n < length ss \<longrightarrow>
           smoothed_score (ss ! Suc n) =
             (1 - smoothing_factor (config t0)) * smoothed_score (ss ! n)
             + smoothing_factor (config t0) * raw_score (ss ! Suc n)"
    using sm by blast
  have ex: "smoothed_score (ss ! Suc n) = 6 / 10"
    if "Suc n < length ss \<and> smoothing_factor (config t0) = 2 / 10
             \<and> smoothed_score (ss ! n) = 5 / 10 \<and> raw_score (ss ! Suc n) = 1" for n
    using chain that by simp
  have "length ss = length frames"
    using run_updates_length [OF r] by simp
  moreover have "frames \<noteq> [] \<longrightarrow> smoothed_score (hd ss) = raw_score (hd ss)"
    using sm none by simp
  moreover have "frames \<noteq> [] \<longrightarrow> smoothed t = Some (smoothed_score (last ss))"
    using sm by blast
  ultimately show ?thesis using r chain ex by blast
qed

theorem exponential_smoothing_witness:
  "init_tracker None = Inr (fresh default_config)
   \<and> (case run_updates (fresh default_config)
              [[face [(''happy'', 1), (''sad'', 1)]], [face [(''happy'', 1)]]] of
        Inl e \<Rightarrow> False
      | Inr (t, ss) \<Rightarrow>
          map raw_score ss = [5 / 10, 1] \<and> map smoothed_score ss = [5 / 10, 6 / 10]
          \<and> smoothed t = Some (6 / 10))"
proof -
  have i: "init_tracker None = Inr (fresh default_config)"
    by (simp add: init_tracker_def new_deque_def default_config_def fresh_def)
  have e: "(case run_updates (fresh default_config)
              [[face [(''happy'', 1), (''sad'', 1)]], [face [(''happy'', 1)]]] of
        Inl e \<Rightarrow> False
      | Inr (t, ss) \<Rightarrow>
          map raw_score ss = [5 / 10, 1] \<and> map smoothed_score ss = [5 / 10, 6 / 10]
          \<and> smoothed t = Some (6 / 10))"
    by code_simp
  show ?thesis
    using exponential_smoothing [OF i, of "[[face [(''happy'', 1), (''sad'', 1)]], [face [(''happy'', 1)]]]"] i e
    by blast
qed

lemma deque_append_maxlen: "maxlen (deque_append q x) = maxlen q"
  by (simp add: deque_append_def Let_def)

lemma deque_append_bounded:
  "length (items q) \<le> maxlen q \<Longrightarrow> length (items (deque_append q x)) \<le> maxlen q"
  by (auto simp: deque_append_def Let_def)

lemma deque_append_window:
  assumes "items q = drop (length xs - maxlen q) xs"
  shows "items (deque_append q x) = drop (length (xs @ [x]) - maxlen q) (xs @ [x])"
proof -
  define k where "k = length xs - maxlen q"
  have tl: "tl ys = drop (Suc 0) ys" for ys :: "real list"
    by (simp add: drop_Suc)
  have ys: "items q @ [x] = drop k (xs @ [x])"
    using assms by (simp add: k_def)
  show ?thesis
  proof (cases "maxlen q < length (items q @ [x])")
    case True
    then have "maxlen q \<le> length xs" using assms by auto
    then have "Suc k = length (xs @ [x]) - maxlen q" by (simp add: k_def Suc_diff_le)
    moreover have "items (deque_append q x) = drop (Suc 0) (drop k (xs @ [x]))"
      using True ys tl by (simp add: deque_append_def Let_def)
    ultimately show ?thesis by simp
  next
    case False
    then have "length xs < maxlen q" using assms by auto
    then have "k = 0" "length (xs @ [x]) - maxlen q = 0" by (simp_all add: k_def)
    moreover have "items (deque_append q x) = drop k (xs @ [x])"
      using False ys by (simp add: deque_append_def Let_def)
    ultimately show ?thesis by simp
  qed
qed

lemma run_updates_window:
  assumes "run_updates t frames = Inr (t', ss)"
    and "items (scores t) = drop (length xs - maxlen (scores t)) xs"
  shows "maxlen (scores t') = maxlen (scores t)
       \<and> items (scores t') =
           drop (length (xs @ map raw_score ss) - maxlen (scores t)) (xs @ map raw_score ss)
       \<and> (\<forall>n<length ss.
            rolling_average (ss ! n) =
              (let window = drop (length (xs @ map raw_score (take (Suc n) ss)) - maxlen (scores t))
                                 (xs @ map raw_score (take (Suc n) ss))
               in if window = [] then 0 else sum_list window / real (length window)))"
  using assms
proof (induction frames arbitrary: t ss xs)
  case Nil
  then show ?case by simp
next
  case (Cons f frames)
  from Cons.prems(1) obtain t1 s ss' where
    st: "update t f = Inr (t1, s)" "run_updates t1 frames = Inr (t', ss')" "ss = s # ss'"
    by (rule run_updates_Cons)
  note u = update_step [OF st(1)]
  have m1: "maxlen (scores t1) = maxlen (scores t)"
    using u(2) by (simp add: deque_append_maxlen)
  have w1: "items (scores t1) =
      drop (length (xs @ [raw_score s]) - maxlen (scores t1)) (xs @ [raw_score s])"
    using deque_append_window [OF Cons.prems(2), of "raw_score s"] u(2) m1 by simp
  note ih = Cons.IH [OF st(2) w1]
  have roll: "rolling_average (ss ! n) =
              (let window = drop (length (xs @ map raw_score (take (Suc n) ss)) - maxlen (scores t))
                                 (xs @ map raw_score (take (Suc n) ss))
               in if window = [] then 0 else sum_list window / real (length window))"
    if n: "n < length ss" for n
  proof (cases n)
    case 0
    then show ?thesis using u(5) w1 m1 st(3) by (simp add: Let_def)
  next
    case (Suc k)
    then have "k < length ss'" using n st(3) by simp
    then show ?thesis using ih Suc st(3) m1 by (simp add: Let_def)
  qed
  show ?case using ih m1 st(3) roll by simp
qed

text \<open>
  C3. On a tracker as \<^verbatim>\<open>__init__\<close> builds it, after any sequence of \<^verbatim>\<open>update\<close>
  calls the FIFO holds the last \<^verbatim>\<open>history_size\<close> raw scores and no more: the oldest one
  leaves when a new one comes in at capacity. The rolling average returned by the call
  number \<open>n\<close> is the arithmetic mean of the FIFO after that call (0 for an empty FIFO,
  which needs \<^verbatim>\<open>history_size = 0\<close>), so from the call number \<^verbatim>\<open>history_size + 1\<close> on
  the first raw score is no part of it.
\<close>

theorem rolling_window:
  assumes "init_tracker c = Inr t0"
  shows "\<exists>t ss. run_updates t0 frames = Inr (t, ss) \<and> length ss = length frames
     \<and> length (items (scores t)) \<le> nat (history_size (config t0))
     \<and> items (scores t) = drop (length ss - nat (history_size (config t0))) (map raw_score ss)
     \<and> (\<forall>n<length ss.
          (let window = drop (Suc n - nat (history_size (config t0)))
                             (map raw_score (take (Suc n) ss))
           in length window \<le> nat (history_size (config t0))
              \<and> rolling_average (ss ! n) =
                  (if window = [] then 0 else sum_list window / real (length window))))
     \<and> (0 < history_size (config t0) \<and> nat (history_size (config t0)) < length ss \<longrightarrow>
          rolling_average (ss ! nat (history_size (config t0))) =
            sum_list (map raw_score (tl (take (Suc (nat (history_size (config t0)))) ss)))
              / real (nat (history_size (config t0))))"
proof -
  define h where "h = nat (history_size (config t0))"
  obtain t ss where r: "run_updates t0 frames = Inr (t, ss)"
    using run_updates_total by blast
  have t0: "maxlen (scores t0) = h" "items (scores t0) = []"
    using init_tracker_fresh(1) [OF assms] by (simp_all add: fresh_def h_def)
  have start: "items (scores t0) = drop (length ([] :: real list) - maxlen (scores t0)) []"
    using t0 by simp
  note w = run_updates_window [OF r start, unfolded t0, simplified]
  have len: "length ss = length frames"
    using run_updates_length [OF r] by simp
  have fifo: "items (scores t) = drop (length ss - h) (map raw_score ss)"
    using w by simp
  have win: "length (drop (Suc n - h) (map raw_score (take (Suc n) ss))) \<le> h
     \<and> rolling_average (ss ! n) =
         (if drop (Suc n - h) (map raw_score (take (Suc n) ss)) = [] then 0
          else sum_list (drop (Suc n - h) (map raw_score (take (Suc n) ss)))
               / real (length (drop (Suc n - h) (map raw_score (take (Suc n) ss)))))"
    if n: "n < length ss" for n
  proof -
    have "min (length ss) (Suc n) = Suc n" using n by simp
    then show ?thesis using w n by (simp add: Let_def)
  qed
  have full: "rolling_average (ss ! h) = sum_list (map raw_score (tl (take (Suc h) ss))) / real h"
    if "0 < history_size (config t0) \<and> h < length ss"
  proof -
    have hp: "0 < h" using that by (simp add: h_def)
    have d: "drop (Suc h - h) (map raw_score (take (Suc h) ss))
               = map raw_score (tl (take (Suc h) ss))"
      by (simp add: Suc_diff_le drop_Suc map_tl)
    have l: "length (map raw_score (tl (take (Suc h) ss))) = h"
      using that by simp
    then have "map raw_score (tl (take (Suc h) ss)) \<noteq> []" using hp by fastforce
    then show ?thesis using win [of h] that d l by simp
  qed
  have "length (items (scores t)) \<le> h" using fifo by simp
  then show ?thesis
    using r len fifo win full unfolding h_def Let_def by blast
qed

theorem rolling_window_witness:
  "init_tracker (Some scenario_config) = Inr (fresh scenario_config)
   \<and> (case run_updates (fresh scenario_config)
              [[face [(''happy'', 1)]], [face [(''sad'', 1)]], [face [(''neutral'', 1)]]] of
        Inl e \<Rightarrow> False
      | Inr (t, ss) \<Rightarrow>
          map raw_score ss = [1, 0, 1 / 2] \<and> items (scores t) = [0, 1 / 2]
          \<and> map rolling_average ss = [1, 1 / 2, 1 / 4])"
proof -
  have i: "init_tracker (Some scenario_config) = Inr (fresh scenario_config)"
    by (simp add: init_tracker_def new_deque_def scenario_config_def fresh_def)
  have e: "(case run_updates (fresh scenario_config)
              [[face [(''happy'', 1)]], [face [(''sad'', 1)]], [face [(''neutral'', 1)]]] of
        Inl e \<Rightarrow> False
      | Inr (t, ss) \<Rightarrow>
          map raw_score ss = [1, 0, 1 / 2] \<and> items (scores t) = [0, 1 / 2]
          \<and> map rolling_average ss = [1, 1 / 2, 1 / 4])"
    by code_simp
  show ?thesis
    using rolling_window [OF i,
        of "[[face [(''happy'', 1)]], [face [(''sad'', 1)]], [face [(''neutral'', 1)]]]"] i e
    by blast
qed

section \<open>Bounds\<close>










section \<open>Claims about merging overrides\<close>

lemma set_normalise: "set (normalise vs) = lower ` set vs"
  by (simp add: normalise_def)

lemma distinct_normalise: "distinct (normalise vs)"
  by (simp add: normalise_def)

lemma sorted_normalise: "sorted (normalise vs)"
  by (simp add: normalise_def)

text \<open>
  C7, as stated, fails: a category that the overrides do not mention is not left as it
  is in the base. With a base whose positive names are \<^verbatim>\<open>("Happy",)\<close> and an override
  of the negative category only, the merged positive names are \<^verbatim>\<open>("happy",)\<close>; and with
  the default base and an override of the positive category only, the neutral names
  come back as \<^verbatim>\<open>("calm", "neutral")\<close>, not \<^verbatim>\<open>("neutral", "calm")\<close>.
\<close>

theorem merge_changes_unmentioned_category:
  "set (positive (merge_emotion_weights \<lparr>positive = [''Happy''], neutral = [], negative = []\<rparr>
                    (Some [(''negative'', [''sad''])])))
     \<noteq> set (positive \<lparr>positive = [''Happy''], neutral = [], negative = []\<rparr>)
   \<and> neutral (merge_emotion_weights default_weights (Some [(''positive'', [''Happy'', ''HAPPY''])]))
     \<noteq> neutral default_weights"
  by code_simp

text \<open>
  C7, amended. \<^verbatim>\<open>merge_emotion_weights\<close> returns the base for overrides that are
  \<^verbatim>\<open>None\<close> or empty. Otherwise every category of the result is normalised (lower-cased,
  without duplicates, sorted): the names of the override where it has the category, the
  names of the base where it has not. A category that is not mentioned keeps its set of
  names exactly when lower-casing changes none of them. Overriding the positive
  category with \<^verbatim>\<open>["Happy", "HAPPY"]\<close> gives the positive names \<^verbatim>\<open>("happy",)\<close>.
\<close>

theorem merge_normalises_every_category:
  "merge_emotion_weights base None = base
   \<and> merge_emotion_weights base (Some []) = base
   \<and> (ov \<noteq> [] \<longrightarrow>
        merge_emotion_weights base (Some ov) =
          \<lparr>positive = normalise (case map_of ov ''positive'' of
                                   None \<Rightarrow> positive base | Some vs \<Rightarrow> vs),
           neutral = normalise (case map_of ov ''neutral'' of
                                  None \<Rightarrow> neutral base | Some vs \<Rightarrow> vs),
           negative = normalise (case map_of ov ''negative'' of
                                   None \<Rightarrow> negative base | Some vs \<Rightarrow> vs)\<rparr>)
   \<and> set (normalise vs) = lower ` set vs
   \<and> distinct (normalise vs)
   \<and> sorted (normalise vs)
   \<and> ((\<forall>v\<in>set vs. lower v = v) \<longrightarrow> set (normalise vs) = set vs)
   \<and> normalise [''Happy'', ''HAPPY''] = [''happy'']"
proof -
  have ex: "normalise [''Happy'', ''HAPPY''] = [''happy'']"
    by code_simp
  have same: "set (normalise vs) = set vs" if "\<forall>v\<in>set vs. lower v = v"
    using that by (simp add: set_normalise)
  show ?thesis
    using ex same
    by (simp add: merge_emotion_weights_def dict_get_def set_normalise distinct_normalise
          sorted_normalise)
qed

theorem merge_normalises_every_category_witness:
  "merge_emotion_weights default_weights (Some [(''positive'', [''Happy'', ''HAPPY''])]) =
     \<lparr>positive = [''happy''],
      neutral = [''calm'', ''neutral''],
      negative = [''angry'', ''bored'', ''contempt'', ''disgust'', ''fear'', ''sad'', ''tired'']\<rparr>
   \<and> set (normalise (neutral default_weights)) = set (neutral default_weights)"
proof -
  have n: "normalise (neutral default_weights) = [''calm'', ''neutral'']"
    "normalise (negative default_weights) =
       [''angry'', ''bored'', ''contempt'', ''disgust'', ''fear'', ''sad'', ''tired'']"
    by code_simp+
  have l: "\<forall>v\<in>set (neutral default_weights). lower v = v"
    by code_simp
  show ?thesis
    using merge_normalises_every_category
      [of default_weights "[(''positive'', [''Happy'', ''HAPPY''])]" "neutral default_weights"] n l
    by simp
qed

section \<open>Emotion totals and the distribution\<close>

lemma dict_get_dict_set:
  "dict_get (dict_set k v d) k' dflt = (if k' = k then v else dict_get d k' dflt)"
  by (simp add: dict_get_def map_of_dict_set)

lemma map_fst_dict_set:
  "map fst (dict_set k v d) = (if k \<in> set (map fst d) then map fst d else map fst d @ [k])"
  by (induction d) (force simp: image_iff)+

lemma keys_dict_set: "set (map fst (dict_set k v d)) = insert k (set (map fst d))"
  by (auto simp: map_fst_dict_set)

lemma distinct_dict_set: "distinct (map fst d) \<Longrightarrow> distinct (map fst (dict_set k v d))"
  by (simp add: map_fst_dict_set)

lemma sum_dict_set:
  fixes d :: "real pydict"
  shows "sum_list (map snd (dict_set k (dict_get d k 0 + v) d)) = sum_list (map snd d) + v"
  by (induction d) (auto simp: dict_get_def)

lemma dict_get_add_totals:
  "dict_get (add_totals ems tot) e 0 =
     dict_get tot e 0 + sum_list (map snd (filter (\<lambda>(k, v). lower k = e) ems))"
  by (induction ems arbitrary: tot) (auto simp: dict_get_dict_set)

lemma keys_add_totals:
  "set (map fst (add_totals ems tot)) = set (map fst tot) \<union> lower ` set (map fst ems)"
proof (induction ems arbitrary: tot)
  case Nil
  show ?case by simp
next
  case (Cons p ems)
  obtain k v where p: "p = (k, v)" by (cases p)
  show ?case
    unfolding p add_totals.simps Cons.IH keys_dict_set by auto
qed

lemma distinct_add_totals:
  "distinct (map fst tot) \<Longrightarrow> distinct (map fst (add_totals ems tot))"
  by (induction ems arbitrary: tot) (auto simp: distinct_dict_set)

lemma sum_add_totals:
  "sum_list (map snd (add_totals ems tot)) = sum_list (map snd tot) + sum_list (map snd ems)"
  by (induction ems arbitrary: tot) (auto simp: sum_dict_set)

lemma fold_add_totals_concat:
  "fold (\<lambda>d. add_totals (emotions d)) dets tot = add_totals (concat (map emotions dets)) tot"
proof -
  have app: "add_totals (xs @ ys) t = add_totals ys (add_totals xs t)" for xs ys t
    by (induction xs arbitrary: t) auto
  show ?thesis
    by (induction dets arbitrary: tot) (auto simp: app)
qed

lemma max_from_spec:
  "max_from best d \<in> set (best # d) \<and> (\<forall>p\<in>set (best # d). snd p \<le> snd (max_from best d))"
proof (induction d arbitrary: best)
  case Nil
  show ?case by simp
next
  case (Cons p d)
  obtain k v where p: "p = (k, v)" by (cases p)
  show ?case
    using Cons.IH [of "if snd best < v then (k, v) else best"] p
    by (auto split: if_splits)
qed

lemma map_of_dict_get:
  "map_of d e = (if e \<in> set (map fst d) then Some (dict_get d e dflt) else None)"
  by (cases "map_of d e") (auto simp: dict_get_def map_of_eq_None_iff dest: map_of_SomeD
        intro: rev_image_eqI)

lemma map_of_shares:
  "map_of (map (\<lambda>(e, v). (e, v / T)) tot) e = map_option (\<lambda>v. v / T) (map_of tot e)"
  by (induction tot) auto

lemma sum_shares:
  fixes tot :: "real pydict"
  shows "sum_list (map snd (map (\<lambda>(e, v). (e, v / T)) tot)) = sum_list (map snd tot) / T"
  by (induction tot) (auto simp: add_divide_distrib)

lemma map_fst_shares: "map fst (map (\<lambda>(e, v). (e, v / T)) tot) = map fst tot"
  by (induction tot) auto

text \<open>
  C4. When the emotion scores of a frame sum to more than 0 (detections with an empty
  mapping add nothing), the returned distribution has, for each lower-cased emotion name
  seen in the frame, the sum of the scores reported under that name divided by the sum
  of all scores, and no other key; its values sum to 1; and the dominant emotion is a key
  of the distribution whose value no other value exceeds.
\<close>

theorem emotion_distribution_shares:
  assumes "0 < sum_list (map snd (concat (map emotions dets)))"
  shows "\<exists>t' s. update t dets = Inr (t', s)
     \<and> (\<forall>e. map_of (emotion_distribution s) e =
            (if e \<in> lower ` set (map fst (concat (map emotions dets)))
             then Some (sum_list (map snd (filter (\<lambda>(k, v). lower k = e)
                                             (concat (map emotions dets))))
                        / sum_list (map snd (concat (map emotions dets))))
             else None))
     \<and> distinct (map fst (emotion_distribution s))
     \<and> sum_list (map snd (emotion_distribution s)) = 1
     \<and> (\<exists>k p. dominant_emotion s = Some k \<and> map_of (emotion_distribution s) k = Some p
            \<and> (\<forall>e q. map_of (emotion_distribution s) e = Some q \<longrightarrow> q \<le> p))"
proof -
  define every where "every = concat (map emotions dets)"
  define tot where "tot = add_totals every []"
  define T where "T = sum_list (map snd every)"
  define shares where "shares = map (\<lambda>(e, v). (e, v / T)) tot"
  have T: "0 < T" using assms by (simp add: T_def every_def)
  have sumtot: "sum_list (map snd tot) = T"
    by (simp add: tot_def T_def sum_add_totals)
  obtain vs where vs:
    "scan_detections (config t) dets [] [] = Inr (vs, fold (\<lambda>d. add_totals (emotions d)) dets [])"
    using scan_detections_eq [of "config t" dets "[]" "[]"] by auto
  then have scan: "scan_detections (config t) dets [] [] = Inr (vs, tot)"
    by (simp add: fold_add_totals_concat tot_def every_def)
  note u = update_of_scan [OF scan, unfolded sumtot]
  obtain t' s where us: "update t dets = Inr (t', s)"
    using update_total by blast
  have s: "s = snd (projr (update t dets))" using us by simp
  have dist: "emotion_distribution s = shares"
    unfolding s u using T by (simp add: shares_def)
  have dom: "dominant_emotion s = Some (fst (max_from (hd shares) (tl shares)))"
    unfolding s u using T by (simp add: shares_def)
  have keys: "map fst shares = map fst tot"
    unfolding shares_def by (rule map_fst_shares)
  have dk: "distinct (map fst shares)"
    unfolding keys tot_def by (rule distinct_add_totals) simp
  have lookup: "map_of shares e =
            (if e \<in> lower ` set (map fst every)
             then Some (sum_list (map snd (filter (\<lambda>(k, v). lower k = e) every)) / T)
             else None)" for e
  proof -
    have k: "set (map fst tot) = lower ` set (map fst every)"
      using keys_add_totals [of every "[]"] by (simp add: tot_def)
    have g: "dict_get tot e 0 = sum_list (map snd (filter (\<lambda>(k, v). lower k = e) every))"
      using dict_get_add_totals [of every "[]" e] by (simp add: tot_def dict_get_def)
    have "map_of tot e =
        (if e \<in> lower ` set (map fst every)
         then Some (sum_list (map snd (filter (\<lambda>(k, v). lower k = e) every))) else None)"
      by (subst map_of_dict_get [of tot e 0]) (simp only: k g)
    then show ?thesis by (simp add: shares_def map_of_shares)
  qed
  have one: "sum_list (map snd shares) = 1"
    unfolding shares_def sum_shares sumtot using T by simp
  have ne: "shares \<noteq> []"
    using one by auto
  define m where "m = max_from (hd shares) (tl shares)"
  have m: "m \<in> set shares" "\<forall>p\<in>set shares. snd p \<le> snd m"
    using max_from_spec [of "hd shares" "tl shares"] ne by (simp_all add: m_def)
  have mk: "map_of shares (fst m) = Some (snd m)"
    using dk m(1) by simp
  have best: "q \<le> snd m" if "map_of shares e = Some q" for e q
    using m(2) map_of_SomeD [OF that] by auto
  have d: "\<exists>k p. dominant_emotion s = Some k \<and> map_of (emotion_distribution s) k = Some p
            \<and> (\<forall>e q. map_of (emotion_distribution s) e = Some q \<longrightarrow> q \<le> p)"
    unfolding dist dom m_def [symmetric] using mk best by blast
  have l: "\<forall>e. map_of (emotion_distribution s) e =
            (if e \<in> lower ` set (map fst (concat (map emotions dets)))
             then Some (sum_list (map snd (filter (\<lambda>(k, v). lower k = e)
                                             (concat (map emotions dets))))
                        / sum_list (map snd (concat (map emotions dets))))
             else None)"
    using lookup unfolding dist every_def T_def by simp
  have dk': "distinct (map fst (emotion_distribution s))"
    using dk unfolding dist .
  have one': "sum_list (map snd (emotion_distribution s)) = 1"
    using one unfolding dist .
  show ?thesis
    by (rule exI [of _ t'], rule exI [of _ s], intro conjI) (fact us l dk' one' d)+
qed

theorem emotion_distribution_shares_witness:
  "(case update (fresh scenario_config)
           [face [(''Happy'', 1), (''sad'', 1)], face [], face [(''happy'', 2)]] of
      Inl e \<Rightarrow> False
    | Inr (t', s) \<Rightarrow>
        emotion_distribution s = [(''happy'', 3 / 4), (''sad'', 1 / 4)]
        \<and> dominant_emotion s = Some ''happy'')"
proof -
  let ?dets = "[face [(''Happy'', 1), (''sad'', 1)], face [], face [(''happy'', 2)]]"
  have p: "0 < sum_list (map snd (concat (map emotions ?dets)))"
    by (simp add: face_def)
  have e: "(case update (fresh scenario_config) ?dets of
      Inl e \<Rightarrow> False
    | Inr (t', s) \<Rightarrow>
        emotion_distribution s = [(''happy'', 3 / 4), (''sad'', 1 / 4)]
        \<and> dominant_emotion s = Some ''happy'')"
    by code_simp
  from emotion_distribution_shares [OF p, of "fresh scenario_config"]
  obtain t' s where "update (fresh scenario_config) ?dets = Inr (t', s)"
    by (elim exE conjE)
  with e show ?thesis by simp
qed

section \<open>The frame summary of analyzer.py\<close>

lemma tally_detections_concat:
  "tally_detections dets tc = tally_items (concat (map emotions dets)) tc"
proof -
  have app: "tally_items (xs @ ys) tc = tally_items ys (tally_items xs tc)" for xs ys tc
    by (induction xs tc rule: tally_items.induct) auto
  show ?thesis
    by (induction dets arbitrary: tc) (auto simp: app)
qed

lemma tally_items_totals:
  "dict_get (fst (tally_items its (tot, cnt))) e 0 =
     dict_get tot e 0 + sum_list (map snd (filter (\<lambda>(k, v). k = e) its))"
  by (induction its arbitrary: tot cnt) (auto simp: dict_get_dict_set)

lemma tally_items_counts:
  "dict_get (snd (tally_items its (tot, cnt))) e 0 =
     dict_get cnt e 0 + length (filter (\<lambda>(k, v). k = e) its)"
  by (induction its arbitrary: tot cnt) (auto simp: dict_get_dict_set)

lemma tally_items_keys:
  "set (map fst (fst (tally_items its (tot, cnt)))) = set (map fst tot) \<union> set (map fst its)"
  "set (map fst (snd (tally_items its (tot, cnt)))) = set (map fst cnt) \<union> set (map fst its)"
proof (induction its arbitrary: tot cnt)
  case Nil
  { case 1 show ?case by simp }
  { case 2 show ?case by simp }
next
  case (Cons p its)
  obtain k v where p: "p = (k, v)" by (cases p)
  { case 1 show ?case unfolding p tally_items.simps Cons.IH keys_dict_set by auto }
  { case 2 show ?case unfolding p tally_items.simps Cons.IH keys_dict_set by auto }
qed

lemma tally_items_distinct:
  "distinct (map fst tot) \<Longrightarrow> distinct (map fst (fst (tally_items its (tot, cnt))))"
  by (induction its arbitrary: tot cnt) (auto simp: distinct_dict_set)

lemma dict_item_dict_get:
  "k \<in> set (map fst d) \<Longrightarrow> dict_item d k = Inr (dict_get d k dflt)"
  using map_of_dict_get [of d k dflt] by (simp add: dict_item_def)

lemma average_all_eq:
  assumes "\<forall>k\<in>set ks. k \<in> set (map fst totals) \<and> k \<in> set (map fst counts)
             \<and> dict_get counts k 0 \<noteq> 0"
  shows "average_all ks totals counts =
           Inr (map (\<lambda>k. (k, dict_get totals k 0 / real (dict_get counts k 0))) ks)"
  using assms
proof (induction ks)
  case Nil
  show ?case by simp
next
  case (Cons k ks)
  have "dict_item totals k = Inr (dict_get totals k 0)"
    "dict_item counts k = Inr (dict_get counts k 0)"
    using Cons.prems by (simp_all add: dict_item_dict_get)
  moreover have "py_div (dict_get totals k 0) (real (dict_get counts k 0)) =
      Inr (dict_get totals k 0 / real (dict_get counts k 0))"
    using Cons.prems by (simp add: py_div_def)
  moreover have "average_all ks totals counts =
           Inr (map (\<lambda>k. (k, dict_get totals k 0 / real (dict_get counts k 0))) ks)"
    using Cons by simp
  ultimately show ?case by simp
qed

lemma map_of_keyed:
  "map_of (map (\<lambda>k. (k, f k)) ks) e = (if e \<in> set ks then Some (f e) else None)"
  by (induction ks) auto

lemma filter_key_absent:
  "e \<notin> set (map fst ems) \<Longrightarrow> filter (\<lambda>(k, v). k = e) ems = []"
  by (induction ems) auto

lemma filter_key_sum:
  fixes ems :: "real pydict"
  assumes "distinct (map fst ems)"
  shows "sum_list (map snd (filter (\<lambda>(k, v). k = e) ems)) = dict_get ems e 0"
  using assms
proof (induction ems)
  case Nil
  show ?case by (simp add: dict_get_def)
next
  case (Cons p ems)
  obtain k v where p: "p = (k, v)" by (cases p)
  show ?case
  proof (cases "k = e")
    case True
    then have "e \<notin> set (map fst ems)" using Cons.prems p by simp
    then show ?thesis using True p by (simp add: filter_key_absent dict_get_def)
  next
    case False
    then show ?thesis using Cons p by (simp add: dict_get_def)
  qed
qed

lemma filter_key_length:
  assumes "distinct (map fst ems)"
  shows "length (filter (\<lambda>(k, v). k = e) ems) = (if e \<in> set (map fst ems) then 1 else 0)"
  using assms
proof (induction ems)
  case Nil
  show ?case by simp
next
  case (Cons p ems)
  obtain k v where p: "p = (k, v)" by (cases p)
  show ?case
  proof (cases "k = e")
    case True
    then have "e \<notin> set (map fst ems)" using Cons.prems p by simp
    then show ?thesis using True p by (simp add: filter_key_absent)
  next
    case False
    then show ?thesis using Cons p by simp
  qed
qed

lemma reported_sum:
  assumes "\<forall>d\<in>set dets. distinct (map fst (emotions d))"
  shows "sum_list (map snd (filter (\<lambda>(k, v). k = e) (concat (map emotions dets)))) =
           sum_list (map (\<lambda>d. dict_get (emotions d) e 0)
                      (filter (\<lambda>d. e \<in> set (map fst (emotions d))) dets))"
  using assms
proof (induction dets)
  case Nil
  show ?case by simp
next
  case (Cons d dets)
  have d: "distinct (map fst (emotions d))"
    and rest: "\<forall>d\<in>set dets. distinct (map fst (emotions d))"
    using Cons.prems by simp_all
  have zero: "dict_get (emotions d) e 0 = 0" if "e \<notin> set (map fst (emotions d))"
    using that map_of_dict_get [of "emotions d" e 0] by (simp add: dict_get_def)
  show ?case
    using Cons.IH [OF rest] filter_key_sum [OF d, of e] zero by simp
qed

lemma reported_count:
  assumes "\<forall>d\<in>set dets. distinct (map fst (emotions d))"
  shows "length (filter (\<lambda>(k, v). k = e) (concat (map emotions dets))) =
           length (filter (\<lambda>d. e \<in> set (map fst (emotions d))) dets)"
  using assms
proof (induction dets)
  case Nil
  show ?case by simp
next
  case (Cons d dets)
  have d: "distinct (map fst (emotions d))"
    and rest: "\<forall>d\<in>set dets. distinct (map fst (emotions d))"
    using Cons.prems by simp_all
  show ?case
    using Cons.IH [OF rest] filter_key_length [OF d, of e] by simp
qed

lemma filter_key_present:
  "e \<in> set (map fst ems) \<Longrightarrow> filter (\<lambda>(k, v). k = e) ems \<noteq> []"
  by (induction ems) auto

text \<open>
  C8. \<^verbatim>\<open>format_detection_summary\<close> takes the detections of one frame and nothing else.
  On detections whose mappings are dicts (distinct keys) it returns, for each emotion
  name that some detection reports, the sum of the scores reported under that name
  divided by the number of detections that report it, and no other key; the result is
  empty when no detection reports an emotion.
\<close>

theorem frame_summary_averages:
  assumes "\<forall>d\<in>set dets. distinct (map fst (emotions d))"
  shows "\<exists>r. format_detection_summary dets = Inr r
     \<and> distinct (map fst r)
     \<and> (\<forall>e. map_of r e =
           (if \<exists>d\<in>set dets. e \<in> set (map fst (emotions d))
            then Some (sum_list (map (\<lambda>d. dict_get (emotions d) e 0)
                                  (filter (\<lambda>d. e \<in> set (map fst (emotions d))) dets))
                       / real (length (filter (\<lambda>d. e \<in> set (map fst (emotions d))) dets)))
            else None))
     \<and> ((\<forall>d\<in>set dets. emotions d = []) \<longrightarrow> r = [])"
proof -
  define its where "its = concat (map emotions dets)"
  define T where "T = fst (tally_items its ([], []))"
  define C where "C = snd (tally_items its ([], []))"
  define r where "r = map (\<lambda>k. (k, dict_get T k 0 / real (dict_get C k 0))) (map fst T)"
  have tally: "tally_detections dets ([], []) = (T, C)"
    by (simp add: tally_detections_concat its_def T_def C_def)
  have keysT: "set (map fst T) = set (map fst its)"
    unfolding T_def tally_items_keys by simp
  have keysC: "set (map fst C) = set (map fst its)"
    unfolding C_def tally_items_keys by simp
  have seen: "e \<in> set (map fst its) \<longleftrightarrow> (\<exists>d\<in>set dets. e \<in> set (map fst (emotions d)))" for e
    by (auto simp: its_def)
  have tot: "dict_get T e 0 =
      sum_list (map (\<lambda>d. dict_get (emotions d) e 0)
                 (filter (\<lambda>d. e \<in> set (map fst (emotions d))) dets))" for e
    unfolding T_def tally_items_totals its_def reported_sum [OF assms]
    by (simp add: dict_get_def)
  have cnt: "dict_get C e 0 = length (filter (\<lambda>d. e \<in> set (map fst (emotions d))) dets)" for e
    unfolding C_def tally_items_counts its_def reported_count [OF assms]
    by (simp add: dict_get_def)
  have pos: "dict_get C k 0 \<noteq> 0" if "k \<in> set (map fst its)" for k
  proof -
    have "dict_get C k 0 = length (filter (\<lambda>(k', v). k' = k) its)"
      unfolding C_def tally_items_counts by (simp add: dict_get_def)
    then show ?thesis using filter_key_present [OF that] by simp
  qed
  have "average_all (map fst T) T C = Inr r"
    unfolding r_def
    by (rule average_all_eq) (use keysT keysC pos in auto)
  moreover have "r = []" if "T = []"
    using that by (simp add: r_def)
  ultimately have f: "format_detection_summary dets = Inr r"
    by (simp add: format_detection_summary_def tally)
  have keys: "map fst r = map fst T"
    by (simp add: r_def comp_def)
  have dk: "distinct (map fst r)"
    unfolding keys T_def by (rule tally_items_distinct) simp
  have look: "\<forall>e. map_of r e =
           (if \<exists>d\<in>set dets. e \<in> set (map fst (emotions d))
            then Some (sum_list (map (\<lambda>d. dict_get (emotions d) e 0)
                                  (filter (\<lambda>d. e \<in> set (map fst (emotions d))) dets))
                       / real (length (filter (\<lambda>d. e \<in> set (map fst (emotions d))) dets)))
            else None)"
    unfolding r_def map_of_keyed keysT seen tot cnt by simp
  have empty: "(\<forall>d\<in>set dets. emotions d = []) \<longrightarrow> r = []"
  proof
    assume "\<forall>d\<in>set dets. emotions d = []"
    then have "its = []" by (simp add: its_def)
    then have "T = []" by (simp add: T_def)
    then show "r = []" by (simp add: r_def)
  qed
  show ?thesis
    by (rule exI [of _ r], intro conjI) (fact f dk look empty)+
qed

theorem frame_summary_averages_witness:
  "format_detection_summary
     [face [(''happy'', 1 / 2), (''sad'', 1 / 2)], face [(''happy'', 1)], face []]
   = Inr [(''happy'', 3 / 4), (''sad'', 1 / 2)]"
proof -
  let ?dets = "[face [(''happy'', 1 / 2), (''sad'', 1 / 2)], face [(''happy'', 1)], face []]"
  have d: "\<forall>d\<in>set ?dets. distinct (map fst (emotions d))"
    by (simp add: face_def)
  have e: "format_detection_summary ?dets = Inr [(''happy'', 3 / 4), (''sad'', 1 / 2)]"
    by code_simp
  from frame_summary_averages [OF d]
  obtain r where "format_detection_summary ?dets = Inr r"
    by (elim exE conjE)
  with e show ?thesis by simp
qed

end
